theory Spec2Isabelle
  imports Complex_Main "HOL-Library.Sublist" "HOL-Library.Multiset"
begin

section \<open>Test sharding of jest.config.ts\<close>

text \<open>
  The development covers the three pure functions of \<^verbatim>\<open>jest.config.ts\<close>:
  \<^verbatim>\<open>scheduleItems\<close> (distribution of shard keys over runner instances),
  \<^verbatim>\<open>getMatchingShards\<close> (shards responsible for a list of changed files) and
  \<^verbatim>\<open>configureShardingOrFallbackTo\<close> (Jest sub-configuration of one shard).
\<close>

subsection \<open>JavaScript numbers met by scheduleItems\<close>

text \<open>
  \<^verbatim>\<open>items.length\<close> is a natural number and \<^verbatim>\<open>availableInstances\<close> is an integer at
  every call site (16, 8 and 4), so \<^verbatim>\<open>numInstances\<close> is an integer. The quotient
  \<^verbatim>\<open>items.length / numInstances\<close> and the remainder \<^verbatim>\<open>items.length % numInstances\<close>
  leave the integers only when \<^verbatim>\<open>numInstances\<close> is zero: \<^verbatim>\<open>0 / 0\<close> and \<^verbatim>\<open>n % 0\<close> are
  \<^verbatim>\<open>NaN\<close>, and \<^verbatim>\<open>n / 0\<close> is \<^verbatim>\<open>Infinity\<close> for positive \<^verbatim>\<open>n\<close>. Array lengths stay below
  \<open>2 ^ 32\<close>, so the double that \<^verbatim>\<open>/\<close> returns has the same ceiling as the exact
  quotient, and \<^verbatim>\<open>%\<close> is exact.
\<close>

datatype jsnum = Fin int | PosInf | NaN

text \<open>\<^verbatim>\<open>Math.ceil(a / b)\<close> for a length \<open>a\<close> and an integer \<open>b\<close>.\<close>

definition ceilQuot :: "nat \<Rightarrow> int \<Rightarrow> jsnum" where
  "ceilQuot a b =
     (if b = 0 then (if a = 0 then NaN else PosInf)
      else Fin (- ((- int a) div b)))"

text \<open>\<^verbatim>\<open>a % b\<close> for a length \<open>a\<close>: the remainder has the sign of the dividend.\<close>

definition jsRem :: "nat \<Rightarrow> int \<Rightarrow> jsnum" where
  "jsRem a b = (if b = 0 then NaN else Fin (int a mod \<bar>b\<bar>))"

text \<open>\<^verbatim>\<open>idx < x\<close>: every comparison with \<^verbatim>\<open>NaN\<close> is false.\<close>

fun jsLess :: "int \<Rightarrow> jsnum \<Rightarrow> bool" where
  "jsLess i (Fin k) = (i < k)"
| "jsLess i PosInf = True"
| "jsLess i NaN = False"

text \<open>\<^verbatim>\<open>x - 1\<close>.\<close>

fun jsPred :: "jsnum \<Rightarrow> jsnum" where
  "jsPred (Fin k) = Fin (k - 1)"
| "jsPred PosInf = PosInf"
| "jsPred NaN = NaN"

text \<open>
  The position that an argument of \<^verbatim>\<open>Array.prototype.slice\<close> denotes in an array of
  length \<open>len\<close>: \<^verbatim>\<open>NaN\<close> counts as 0, a negative value counts from the end, and the
  result is clamped to \<open>0..len\<close>.
\<close>

fun relIndex :: "nat \<Rightarrow> jsnum \<Rightarrow> nat" where
  "relIndex len (Fin k) = (if k < 0 then nat (max (int len + k) 0) else min (nat k) len)"
| "relIndex len PosInf = len"
| "relIndex len NaN = 0"

text \<open>\<^verbatim>\<open>xs.slice(0, n)\<close> and \<^verbatim>\<open>xs.slice(n)\<close>.\<close>

definition sliceTo :: "'a list \<Rightarrow> jsnum \<Rightarrow> 'a list" where
  "sliceTo xs n = take (relIndex (length xs) n) xs"

definition sliceFrom :: "'a list \<Rightarrow> jsnum \<Rightarrow> 'a list" where
  "sliceFrom xs n = drop (relIndex (length xs) n) xs"

subsection \<open>scheduleItems\<close>

text \<open>
  \<^verbatim>\<open>Array.from({ length: n }, f)\<close> for an integer \<open>n\<close> builds an array of \<open>max n 0\<close>
  elements, which is \<open>nat n\<close>.
\<close>

definition numInstancesOf :: "'a list \<Rightarrow> int \<Rightarrow> int" where
  "numInstancesOf items availableInstances = min (int (length items)) availableInstances"

definition maxPerInstanceOf :: "'a list \<Rightarrow> int \<Rightarrow> jsnum" where
  "maxPerInstanceOf items availableInstances =
     ceilQuot (length items) (numInstancesOf items availableInstances)"

definition lighterInstancesIdxOf :: "'a list \<Rightarrow> int \<Rightarrow> jsnum" where
  "lighterInstancesIdxOf items availableInstances =
     (let numInstances = numInstancesOf items availableInstances in
      if jsRem (length items) numInstances = Fin 0 then Fin numInstances
      else jsRem (length items) numInstances)"

definition partitionSizesOf :: "'a list \<Rightarrow> int \<Rightarrow> jsnum list" where
  "partitionSizesOf items availableInstances =
     (let numInstances = numInstancesOf items availableInstances;
          maxPerInstance = maxPerInstanceOf items availableInstances;
          lighterInstancesIdx = lighterInstancesIdxOf items availableInstances
      in map (\<lambda>idx. if jsLess (int idx) lighterInstancesIdx then maxPerInstance
                     else jsPred maxPerInstance)
             [0..<nat numInstances])"

text \<open>
  The \<^verbatim>\<open>for\<close> loop, with the loop variable \<open>idx\<close> and the two variables it updates.
  \<^verbatim>\<open>partitionSizes\<close> and \<^verbatim>\<open>result\<close> both have \<open>nat numInstances\<close> elements and the loop
  runs only while \<open>idx < numInstances\<close>, so the read and the write are always in range.
\<close>

function scheduleLoop ::
  "jsnum list \<Rightarrow> int \<Rightarrow> nat \<Rightarrow> 'a list list \<Rightarrow> 'a list \<Rightarrow> 'a list list" where
  "scheduleLoop partitionSizes numInstances idx result rest =
     (if int idx < numInstances then
        (let partitionSize = partitionSizes ! idx;
             partition = sliceTo rest partitionSize
         in scheduleLoop partitionSizes numInstances (idx + 1)
              (result[idx := partition]) (sliceFrom rest partitionSize))
      else result)"
  by pat_completeness auto
termination
  by (relation "measure (\<lambda>(ps, n, idx, res, rest). nat (n - int idx))") auto

declare scheduleLoop.simps [simp del]

definition scheduleItems :: "'a list \<Rightarrow> int \<Rightarrow> 'a list list" where
  "scheduleItems items availableInstances =
     (let numInstances = numInstancesOf items availableInstances;
          partitionSizes = partitionSizesOf items availableInstances;
          result = replicate (nat numInstances) []
      in scheduleLoop partitionSizes numInstances 0 result items)"


text \<open>
  The sizes section 4.4 of the specification prescribes for \<open>len\<close> items in
  \<open>numGroups\<close> groups, and the contiguous cutting of a list into pieces of given
  sizes. Both are used to state and prove the properties of \<^verbatim>\<open>scheduleItems\<close>.
\<close>

definition specSizes :: "nat \<Rightarrow> nat \<Rightarrow> nat list" where
  "specSizes len numGroups =
     (let base = nat \<lceil>real len / real numGroups\<rceil>;
          remainder = len mod numGroups
      in if remainder = 0 then replicate numGroups base
         else replicate remainder base @ replicate (numGroups - remainder) (base - 1))"

fun slices :: "nat list \<Rightarrow> 'a list \<Rightarrow> 'a list list" where
  "slices [] rest = []"
| "slices (s # ss) rest = take s rest # slices ss (drop s rest)"

subsection \<open>The shard registry\<close>

record Threshold =
  branches :: "real option"
  "functions" :: "real option"
  lines :: "real option"
  statements :: "real option"

record ShardConfig =
  matchPaths :: "string list"
  threshold :: "Threshold option"

text \<open>
  A registry is the list \<^verbatim>\<open>Object.entries(testShards)\<close>: the keys of an object are
  pairwise different, and keys that are not array indices are enumerated in insertion
  order. The functions below take the registry as their first argument; the object
  literal of the source is \<open>testShards\<close>.
\<close>

type_synonym Registry = "(string \<times> ShardConfig) list"

definition testShards :: Registry where
  "testShards =
    [(''datasources-1'',
        \<lparr>matchPaths = [''lib/modules/datasource/[a-g]*''],
         threshold = Some \<lparr>branches = Some 96.95, functions = None, lines = None,
           statements = None\<rparr>\<rparr>),
     (''datasources-2'',
        \<lparr>matchPaths = [''lib/modules/datasource''],
         threshold = Some \<lparr>branches = Some 96.0, functions = Some 98.25, lines = Some 99.35,
           statements = Some 99.35\<rparr>\<rparr>),
     (''managers-1'',
        \<lparr>matchPaths = [''lib/modules/manager/[a-c]*''],
         threshold = Some \<lparr>branches = None, functions = Some 99.3, lines = None,
           statements = None\<rparr>\<rparr>),
     (''managers-2'',
        \<lparr>matchPaths = [''lib/modules/manager/[d-h]*''],
         threshold = Some \<lparr>branches = None, functions = Some 99.7, lines = None,
           statements = None\<rparr>\<rparr>),
     (''managers-3'',
        \<lparr>matchPaths = [''lib/modules/manager/[i-n]*''],
         threshold = Some \<lparr>branches = Some 98.5, functions = Some 98.65, lines = Some 99.65,
           statements = Some 99.65\<rparr>\<rparr>),
     (''managers-4'',
        \<lparr>matchPaths = [''lib/modules/manager''], threshold = None\<rparr>),
     (''platform'',
        \<lparr>matchPaths = [''lib/modules/platform''],
         threshold = Some \<lparr>branches = Some 97.5, functions = None, lines = None,
           statements = None\<rparr>\<rparr>),
     (''versioning'',
        \<lparr>matchPaths = [''lib/modules/versioning''],
         threshold = Some \<lparr>branches = Some 97.25, functions = None, lines = None,
           statements = None\<rparr>\<rparr>),
     (''workers-1'',
        \<lparr>matchPaths = [''lib/workers/repository/changelog'',
           ''lib/workers/repository/config-migration'', ''lib/workers/repository/extract'',
           ''lib/workers/repository/finalize'', ''lib/workers/repository/init'',
           ''lib/workers/repository/model''],
         threshold = Some \<lparr>branches = Some 94.0, functions = None, lines = Some 98.98,
           statements = Some 98.99\<rparr>\<rparr>),
     (''workers-2'',
        \<lparr>matchPaths = [''lib/workers/repository/onboarding'',
           ''lib/workers/repository/process''],
         threshold = Some \<lparr>branches = Some 98.73, functions = None, lines = None,
           statements = None\<rparr>\<rparr>),
     (''workers-3'',
        \<lparr>matchPaths = [''lib/workers/repository/update'',
           ''lib/workers/repository/updates''],
         threshold = None\<rparr>),
     (''workers-4'',
        \<lparr>matchPaths = [''lib/workers''],
         threshold = Some \<lparr>branches = Some 98.27, functions = None, lines = Some 99.9,
           statements = Some 99.9\<rparr>\<rparr>),
     (''git-1'',
        \<lparr>matchPaths = [''lib/util/git/index.spec.ts''],
         threshold = Some \<lparr>branches = None, functions = Some 97.55, lines = Some 99.8,
           statements = Some 99.8\<rparr>\<rparr>),
     (''git-2'',
        \<lparr>matchPaths = [''lib/util/git''],
         threshold = Some \<lparr>branches = Some 98.65, functions = Some 93.9, lines = Some 98.4,
           statements = Some 98.4\<rparr>\<rparr>),
     (''util'',
        \<lparr>matchPaths = [''lib/util''],
         threshold = Some \<lparr>branches = Some 96.15, functions = Some 95.85, lines = Some 97.95,
           statements = Some 97.85\<rparr>\<rparr>),
     (''other'',
        \<lparr>matchPaths = [''lib''], threshold = None\<rparr>)]"

subsection \<open>Strings and normalizePattern\<close>

definition endsWith :: "string \<Rightarrow> string \<Rightarrow> bool" where
  "endsWith s searchString =
     (length searchString \<le> length s \<and>
      drop (length s - length searchString) s = searchString)"

definition startsWith :: "string \<Rightarrow> string \<Rightarrow> bool" where
  "startsWith s searchString = (take (length searchString) s = searchString)"

text \<open>
  \<^verbatim>\<open>s.replace(/\.spec\.ts$/, replacement)\<close>: without the \<^verbatim>\<open>m\<close> flag \<^verbatim>\<open>$\<close> matches at the
  end of the string only, so the expression replaces a final \<^verbatim>\<open>.spec.ts\<close> and leaves
  every other string as it is. None of the replacements used contains \<^verbatim>\<open>$\<close>.
\<close>

definition replaceSpecTs :: "string \<Rightarrow> string \<Rightarrow> string" where
  "replaceSpecTs s replacement =
     (if endsWith s ''.spec.ts'' then take (length s - length ''.spec.ts'') s @ replacement
      else s)"

definition normalizePattern :: "string \<Rightarrow> string \<Rightarrow> string" where
  "normalizePattern pattern suffix' =
     (if endsWith pattern ''.spec.ts'' then replaceSpecTs pattern suffix'
      else pattern @ ''/**/*'' @ suffix')"

text \<open>\<^verbatim>\<open>xs.join(sep)\<close>.\<close>

fun joinWith :: "string \<Rightarrow> string list \<Rightarrow> string" where
  "joinWith sep [] = []"
| "joinWith sep [x] = x"
| "joinWith sep (x # y # ys) = x @ sep @ joinWith sep (y # ys)"

subsection \<open>configureShardingOrFallbackTo\<close>

record CoverageThreshold =
  global :: "Threshold option"

record JestShardedSubconfig =
  testMatch :: "string list option"
  collectCoverageFrom :: "string list option"
  coverageThreshold :: "CoverageThreshold option"
  coverageDirectory :: "string option"

datatype error = Error string

text \<open>
  \<^verbatim>\<open>testShards[shardKey]\<close> reads a property through the prototype chain. Each own
  property holds an object, hence is truthy; an object literal also inherits the members of
  \<^verbatim>\<open>Object.prototype\<close>, which are functions, and the accessor \<^verbatim>\<open>__proto__\<close>, which
  yields \<^verbatim>\<open>Object.prototype\<close> itself: all truthy.
\<close>

definition objectPrototypeKeys :: "string list" where
  "objectPrototypeKeys =
     [''constructor'', ''hasOwnProperty'', ''isPrototypeOf'', ''propertyIsEnumerable'',
      ''toLocaleString'', ''toString'', ''valueOf'', ''__proto__'', ''__defineGetter__'',
      ''__defineSetter__'', ''__lookupGetter__'', ''__lookupSetter__'']"

definition lookupTruthy :: "Registry \<Rightarrow> string \<Rightarrow> bool" where
  "lookupTruthy shards shardKey =
     (shardKey \<in> set (map fst shards) \<or> shardKey \<in> set objectPrototypeKeys)"

text \<open>\<^verbatim>\<open>x ?? d\<close> on an optional number.\<close>

fun nullish :: "'a option \<Rightarrow> 'a \<Rightarrow> 'a" where
  "nullish None d = d"
| "nullish (Some v) d = v"

text \<open>\<^verbatim>\<open>fallback.coverageThreshold?.global\<close>.\<close>

definition defaultGlobalOf :: "JestShardedSubconfig \<Rightarrow> Threshold option" where
  "defaultGlobalOf fallback =
     (case coverageThreshold fallback of None \<Rightarrow> None | Some ct \<Rightarrow> global ct)"

text \<open>\<^verbatim>\<open>defaultGlobal?.field ?? 100\<close> for the four fields.\<close>

definition initialGlobal :: "JestShardedSubconfig \<Rightarrow> Threshold" where
  "initialGlobal fallback =
     (let defaultGlobal = defaultGlobalOf fallback;
          field = (\<lambda>f. case defaultGlobal of None \<Rightarrow> None | Some g \<Rightarrow> f g)
      in \<lparr>branches = Some (nullish (field branches) 100),
          functions = Some (nullish (field functions) 100),
          lines = Some (nullish (field lines) 100),
          statements = Some (nullish (field statements) 100)\<rparr>)"

text \<open>
  \<^verbatim>\<open>fallback.collectCoverageFrom?.filter((pattern) => pattern.startsWith('!')) ?? []\<close>.
\<close>

definition initialCollectCoverageFrom :: "JestShardedSubconfig \<Rightarrow> string list" where
  "initialCollectCoverageFrom fallback =
     (case collectCoverageFrom fallback of
        None \<Rightarrow> []
      | Some patterns \<Rightarrow> filter (\<lambda>pattern. startsWith pattern ''!'') patterns)"

text \<open>The object spread \<^verbatim>\<open>{ ...global, ...threshold }\<close>: fields of the override win.\<close>

definition spreadThreshold :: "Threshold \<Rightarrow> Threshold \<Rightarrow> Threshold" where
  "spreadThreshold g t =
     \<lparr>branches = (case branches t of None \<Rightarrow> branches g | Some v \<Rightarrow> Some v),
      functions = (case functions t of None \<Rightarrow> functions g | Some v \<Rightarrow> Some v),
      lines = (case lines t of None \<Rightarrow> lines g | Some v \<Rightarrow> Some v),
      statements = (case statements t of None \<Rightarrow> statements g | Some v \<Rightarrow> Some v)\<rparr>"

text \<open>The three variables the loop over the registry updates.\<close>

record ResolverState =
  testMatchAcc :: "string list"
  collectCoverageFromAcc :: "string list"
  globalAcc :: Threshold

text \<open>The loop over \<^verbatim>\<open>Object.entries(testShards)\<close>, left by \<^verbatim>\<open>break\<close> at the target.\<close>

fun shardLoop :: "string \<Rightarrow> Registry \<Rightarrow> ResolverState \<Rightarrow> ResolverState" where
  "shardLoop shardKey [] st = st"
| "shardLoop shardKey ((key, cfg) # entries) st =
     (if key = shardKey then
        st\<lparr>testMatchAcc := testMatchAcc st @
              map (\<lambda>pattern. ''<rootDir>/'' @ normalizePattern pattern ''.spec.ts'')
                (matchPaths cfg),
           collectCoverageFromAcc := collectCoverageFromAcc st @
              map (\<lambda>pattern. normalizePattern pattern ''.ts'') (matchPaths cfg),
           globalAcc := (case threshold cfg of
                           None \<Rightarrow> globalAcc st
                         | Some t \<Rightarrow> spreadThreshold (globalAcc st) t)\<rparr>
      else
        shardLoop shardKey entries
          (st\<lparr>testMatchAcc := testMatchAcc st @
                map (\<lambda>pattern. ''!**/'' @ normalizePattern pattern ''.spec.ts'')
                  (matchPaths cfg),
              collectCoverageFromAcc := collectCoverageFromAcc st @
                map (\<lambda>pattern. ''!'' @ normalizePattern pattern ''.ts'')
                  (matchPaths cfg)\<rparr>))"

text \<open>
  The second argument is \<^verbatim>\<open>process.env.TEST_SHARD\<close>: \<open>None\<close> when the variable is
  unset. \<^verbatim>\<open>!shardKey\<close> holds for \<^verbatim>\<open>undefined\<close> and for the empty string.
\<close>

definition configureShardingOrFallbackTo ::
  "Registry \<Rightarrow> string option \<Rightarrow> JestShardedSubconfig \<Rightarrow> error + JestShardedSubconfig" where
  "configureShardingOrFallbackTo shards env fallback =
     (case env of
        None \<Rightarrow> Inr fallback
      | Some shardKey \<Rightarrow>
          if shardKey = [] then Inr fallback
          else if \<not> lookupTruthy shards shardKey then
            Inl (Error (''Unknown value for TEST_SHARD: '' @ shardKey @
                        '' (possible values: '' @ joinWith '', '' (map fst shards) @ '')''))
          else
            (let st = shardLoop shardKey shards
                        \<lparr>testMatchAcc = [],
                         collectCoverageFromAcc = initialCollectCoverageFrom fallback,
                         globalAcc = initialGlobal fallback\<rparr>
             in Inr \<lparr>testMatch = Some (rev (testMatchAcc st)),
                     collectCoverageFrom = Some (rev (collectCoverageFromAcc st)),
                     coverageThreshold = Some \<lparr>global = Some (globalAcc st)\<rparr>,
                     coverageDirectory = Some (''./coverage/shard/'' @ shardKey)\<rparr>))"

text \<open>The argument of the only call of \<^verbatim>\<open>configureShardingOrFallbackTo\<close>.\<close>

definition fallbackConfig :: JestShardedSubconfig where
  "fallbackConfig =
     \<lparr>testMatch = None,
      collectCoverageFrom = Some [''lib/**/*.{js,ts}'', ''!lib/**/*.{d,spec}.ts'',
        ''!lib/**/{__fixtures__,__mocks__,__testutil__,test}/**/*.{js,ts}'',
        ''!lib/**/types.ts''],
      coverageThreshold = Some \<lparr>global = Some \<lparr>branches = Some 98, functions = Some 100,
        lines = Some 100, statements = Some 100\<rparr>\<rparr>,
      coverageDirectory = Some ''./coverage''\<rparr>"

text \<open>
  Notions used to state the properties of the resolver: the entries of a pattern list
  that are exclusions, and the exclusions the loop adds for the shards before
  position \<open>k\<close>.
\<close>

definition exclusionEntries :: "string list \<Rightarrow> string list" where
  "exclusionEntries patterns = filter (\<lambda>pattern. startsWith pattern ''!'') patterns"

definition priorTestExclusions :: "Registry \<Rightarrow> nat \<Rightarrow> string list" where
  "priorTestExclusions shards k =
     concat (map (\<lambda>(key, cfg).
                map (\<lambda>pattern. ''!**/'' @ normalizePattern pattern ''.spec.ts'') (matchPaths cfg))
              (take k shards))"

definition priorCoverageExclusions :: "Registry \<Rightarrow> nat \<Rightarrow> string list" where
  "priorCoverageExclusions shards k =
     concat (map (\<lambda>(key, cfg).
                map (\<lambda>pattern. ''!'' @ normalizePattern pattern ''.ts'') (matchPaths cfg))
              (take k shards))"

text \<open>Projections of the result of the resolver, \<open>None\<close> when it fails.\<close>

definition resolvedTestMatch :: "error + JestShardedSubconfig \<Rightarrow> string list option" where
  "resolvedTestMatch res = (case res of Inl e \<Rightarrow> None | Inr cfg \<Rightarrow> testMatch cfg)"

definition resolvedCollectCoverageFrom ::
  "error + JestShardedSubconfig \<Rightarrow> string list option" where
  "resolvedCollectCoverageFrom res =
     (case res of Inl e \<Rightarrow> None | Inr cfg \<Rightarrow> collectCoverageFrom cfg)"

definition resolvedGlobal :: "error + JestShardedSubconfig \<Rightarrow> Threshold option" where
  "resolvedGlobal res =
     (case res of Inl e \<Rightarrow> None
      | Inr cfg \<Rightarrow> (case coverageThreshold cfg of None \<Rightarrow> None | Some ct \<Rightarrow> global ct))"

text \<open>
  The four fields in the order \<^verbatim>\<open>branches\<close>, \<^verbatim>\<open>functions\<close>, \<^verbatim>\<open>lines\<close>, \<^verbatim>\<open>statements\<close>:
  which of them an override gives, and on which of them two thresholds differ.
\<close>

definition overriddenFields :: "Threshold option \<Rightarrow> bool list" where
  "overriddenFields override =
     (case override of
        None \<Rightarrow> [False, False, False, False]
      | Some t \<Rightarrow> [branches t \<noteq> None, functions t \<noteq> None, lines t \<noteq> None,
                   statements t \<noteq> None])"

definition differingFields :: "Threshold \<Rightarrow> Threshold \<Rightarrow> bool list" where
  "differingFields g baseline =
     [branches g \<noteq> branches baseline, functions g \<noteq> functions baseline,
      lines g \<noteq> lines baseline, statements g \<noteq> statements baseline]"

text \<open>A fallback configuration that gives a default for \<^verbatim>\<open>branches\<close> only.\<close>

definition partialFallback :: JestShardedSubconfig where
  "partialFallback =
     \<lparr>testMatch = None, collectCoverageFrom = None,
      coverageThreshold = Some \<lparr>global = Some \<lparr>branches = Some 90, functions = None,
        lines = None, statements = None\<rparr>\<rparr>,
      coverageDirectory = None\<rparr>"

subsection \<open>getMatchingShards\<close>

text \<open>
  \<^verbatim>\<open>minimatch\<close> comes from a library outside the repository: the functions take the
  matcher as the parameter \<open>mm\<close>, applied to the file and the pattern.
\<close>

text \<open>The \<^verbatim>\<open>patterns\<close> built from \<^verbatim>\<open>matchPaths\<close>.\<close>

definition changedFilePatterns :: "string list \<Rightarrow> string list" where
  "changedFilePatterns paths =
     map (\<lambda>path. if endsWith path ''.spec.ts'' then replaceSpecTs path ''{.ts,.spec.ts}''
                  else path @ ''/**/*'')
       paths"

text \<open>\<^verbatim>\<open>patterns.some((pattern) => minimatch(file, pattern))\<close>.\<close>

definition shardMatches :: "(string \<Rightarrow> string \<Rightarrow> bool) \<Rightarrow> string \<Rightarrow> ShardConfig \<Rightarrow> bool" where
  "shardMatches mm file cfg = list_ex (mm file) (changedFilePatterns (matchPaths cfg))"

text \<open>The inner loop over the registry for one file, left by \<^verbatim>\<open>break\<close>.\<close>

fun scanShards ::
  "(string \<Rightarrow> string \<Rightarrow> bool) \<Rightarrow> string \<Rightarrow> Registry \<Rightarrow> string set \<Rightarrow> string set" where
  "scanShards mm file [] matchingShards = matchingShards"
| "scanShards mm file ((key, cfg) # entries) matchingShards =
     (if shardMatches mm file cfg then insert key matchingShards
      else scanShards mm file entries matchingShards)"

text \<open>The outer loop over the files.\<close>

fun scanFiles ::
  "(string \<Rightarrow> string \<Rightarrow> bool) \<Rightarrow> Registry \<Rightarrow> string list \<Rightarrow> string set \<Rightarrow> string set" where
  "scanFiles mm shards [] matchingShards = matchingShards"
| "scanFiles mm shards (file # files) matchingShards =
     scanFiles mm shards files (scanShards mm file shards matchingShards)"

definition getMatchingShards ::
  "(string \<Rightarrow> string \<Rightarrow> bool) \<Rightarrow> Registry \<Rightarrow> string list \<Rightarrow> string list" where
  "getMatchingShards mm shards files =
     filter (\<lambda>shard. shard \<in> scanFiles mm shards files {}) (map fst shards)"

text \<open>
  The shards to which the scan attributes one file: the keys the inner loop adds
  when it starts from the empty set.
\<close>

definition attributed :: "(string \<Rightarrow> string \<Rightarrow> bool) \<Rightarrow> Registry \<Rightarrow> string \<Rightarrow> string set" where
  "attributed mm shards file = scanShards mm file shards {}"

text \<open>
  A matcher for concrete evaluations. It decides the two shapes of pattern that
  \<open>changedFilePatterns\<close> builds from a path without glob characters, as \<^verbatim>\<open>minimatch\<close>
  does for files none of whose path segments begins with a dot: \<^verbatim>\<open>dir/**/*\<close> matches
  the files below \<^verbatim>\<open>dir/\<close>, and \<^verbatim>\<open>stem{.ts,.spec.ts}\<close> matches \<^verbatim>\<open>stem.ts\<close> and
  \<^verbatim>\<open>stem.spec.ts\<close>. A pattern with other glob characters is compared literally.
\<close>

definition literalGlob :: "string \<Rightarrow> string \<Rightarrow> bool" where
  "literalGlob file pattern =
     (if endsWith pattern ''/**/*'' then
        startsWith file (take (length pattern - length ''**/*'') pattern) \<and>
        length pattern - length ''**/*'' < length file
      else if endsWith pattern ''{.ts,.spec.ts}'' then
        (let stem = take (length pattern - length ''{.ts,.spec.ts}'') pattern
         in file = stem @ ''.ts'' \<or> file = stem @ ''.spec.ts'')
      else file = pattern)"

section \<open>Properties of scheduleItems\<close>

lemma length_slices: "length (slices ss rest) = length ss"
  by (induction ss arbitrary: rest) auto

lemma concat_slices: "concat (slices ss rest) = take (sum_list ss) rest"
proof (induction ss arbitrary: rest)
  case Nil
  then show ?case by simp
next
  case (Cons s ss)
  have "take s rest @ take (sum_list ss) (drop s rest) = take (s + sum_list ss) rest"
    by (simp add: take_add)
  with Cons show ?case by simp
qed

lemma map_length_slices:
  "sum_list ss \<le> length rest \<Longrightarrow> map length (slices ss rest) = ss"
  by (induction ss arbitrary: rest) auto

lemma sliceTo_nat: "sliceTo xs (Fin (int k)) = take k xs"
  by (cases "k \<le> length xs") (simp_all add: sliceTo_def min_def)

lemma sliceFrom_nat: "sliceFrom xs (Fin (int k)) = drop k xs"
  by (cases "k \<le> length xs") (simp_all add: sliceFrom_def min_def)

lemma scheduleLoop_done:
  "\<not> int idx < numInstances \<Longrightarrow>
   scheduleLoop partitionSizes numInstances idx result rest = result"
  by (subst scheduleLoop.simps) simp

lemma scheduleLoop_slices:
  assumes "length ss = n" "length result = n" "idx \<le> n"
  shows "scheduleLoop (map (\<lambda>s. Fin (int s)) ss) (int n) idx result rest
           = take idx result @ slices (drop idx ss) rest"
  using assms
proof (induction "n - idx" arbitrary: idx result rest)
  case 0
  then have "idx = n" by simp
  with 0 show ?case by (simp add: scheduleLoop_done)
next
  case (Suc d)
  then have lt: "idx < n" by simp
  have d: "d = n - (idx + 1)" using Suc.hyps(2) by simp
  have dr: "drop idx ss = ss ! idx # drop (idx + 1) ss"
    using lt Suc.prems(1) by (simp add: Cons_nth_drop_Suc)
  have step: "scheduleLoop (map (\<lambda>s. Fin (int s)) ss) (int n) idx result rest
      = scheduleLoop (map (\<lambda>s. Fin (int s)) ss) (int n) (idx + 1)
          (result[idx := take (ss ! idx) rest]) (drop (ss ! idx) rest)"
    using lt Suc.prems(1)
    by (subst scheduleLoop.simps) (simp add: sliceTo_nat sliceFrom_nat Let_def)
  have "scheduleLoop (map (\<lambda>s. Fin (int s)) ss) (int n) (idx + 1)
          (result[idx := take (ss ! idx) rest]) (drop (ss ! idx) rest)
      = take (idx + 1) (result[idx := take (ss ! idx) rest])
          @ slices (drop (idx + 1) ss) (drop (ss ! idx) rest)"
    using Suc.hyps(1)[OF d] Suc.prems lt by simp
  also have "take (idx + 1) (result[idx := take (ss ! idx) rest])
      = take idx result @ [take (ss ! idx) rest]"
    using lt Suc.prems(2) by (simp add: take_Suc_conv_app_nth)
  finally show ?case using step dr by simp
qed


lemma ceilQuot_ceiling:
  "b \<noteq> 0 \<Longrightarrow> ceilQuot a b = Fin \<lceil>real a / real_of_int b\<rceil>"
  by (simp add: ceilQuot_def ceiling_divide_eq_div [of "int a" b, where ?'a = real, simplified])

lemma neg_div_neg:
  assumes "0 < n"
  shows "- ((- int L) div int n) = (if L mod n = 0 then int (L div n) else int (L div n) + 1)"
proof -
  have "(int L mod int n = 0) = (L mod n = 0)"
    by (metis of_nat_eq_0_iff zmod_int)
  then show ?thesis using assms
    by (simp add: zdiv_zminus1_eq_if zdiv_int)
qed

lemma specBase:
  assumes "0 < n"
  shows "nat \<lceil>real L / real n\<rceil> = (if L mod n = 0 then L div n else L div n + 1)"
proof -
  have "\<lceil>real L / real n\<rceil> = - ((- int L) div int n)"
    using ceiling_divide_eq_div [of "int L" "int n", where ?'a = real] by simp
  then show ?thesis using neg_div_neg [OF assms, of L] by (simp add: nat_add_distrib)
qed

lemma sum_list_specSizes:
  assumes "0 < n"
  shows "sum_list (specSizes L n) = L"
proof (cases "L mod n = 0")
  case True
  then have "n * (L div n) = L" by auto
  with True assms show ?thesis by (simp add: specSizes_def specBase sum_list_replicate Let_def)
next
  case False
  have r: "L mod n < n" using assms by simp
  have "L mod n * (L div n + 1) + (n - L mod n) * (L div n) = n * (L div n) + L mod n"
    using r by (simp add: algebra_simps)
  then show ?thesis using False assms
    by (simp add: specSizes_def specBase sum_list_replicate Let_def)
qed

lemma length_specSizes: "0 < n \<Longrightarrow> length (specSizes L n) = n"
  by (simp add: specSizes_def Let_def)

lemma specSizes_pos:
  assumes "0 < n" "n \<le> L" "s \<in> set (specSizes L n)"
  shows "0 < s"
proof -
  have d: "0 < L div n" using assms(1,2) by (simp add: div_greater_zero_iff)
  show ?thesis using assms(3) d assms(1)
    by (auto simp: specSizes_def specBase Let_def split: if_splits)
qed

lemma specSizes_range:
  assumes "0 < n" "s \<in> set (specSizes L n)"
  shows "s = nat \<lceil>real L / real n\<rceil> \<or> s = nat \<lceil>real L / real n\<rceil> - 1"
  using assms by (auto simp: specSizes_def Let_def split: if_splits)

lemma partitionSizesOf_spec:
  assumes "items \<noteq> []" "1 \<le> m"
  shows "partitionSizesOf items m
     = map (\<lambda>s. Fin (int s)) (specSizes (length items) (nat (numInstancesOf items m)))"
proof -
  define L where "L = length items"
  define n where "n = nat (numInstancesOf items m)"
  have L: "0 < L" using assms(1) by (simp add: L_def)
  have n: "0 < n" "n \<le> L" "numInstancesOf items m = int n"
    using L assms(2) by (auto simp: n_def numInstancesOf_def L_def)
  define b where "b = (if L mod n = 0 then L div n else L div n + 1)"
  have b: "0 < b" using n(1,2) by (auto simp: b_def div_greater_zero_iff)
  have mx: "maxPerInstanceOf items m = Fin (int b)"
    using n neg_div_neg [OF n(1), of L]
    by (simp add: maxPerInstanceOf_def ceilQuot_def b_def L_def)
  have li: "lighterInstancesIdxOf items m = Fin (int (if L mod n = 0 then n else L mod n))"
    using n by (simp add: lighterInstancesIdxOf_def jsRem_def L_def Let_def zmod_int [symmetric])
  have ps: "partitionSizesOf items m
      = map (\<lambda>idx. Fin (int (if idx < (if L mod n = 0 then n else L mod n) then b else b - 1))) [0..<n]"
    using b unfolding partitionSizesOf_def Let_def mx li n(3)
    by (auto simp: of_nat_diff)
  have sp: "specSizes L n
      = map (\<lambda>idx. if idx < (if L mod n = 0 then n else L mod n) then b else b - 1) [0..<n]"
  proof (rule nth_equalityI)
    show "length (specSizes L n) = length (map (\<lambda>idx. if idx < (if L mod n = 0 then n else L mod n) then b else b - 1) [0..<n])"
      using n(1) by (simp add: length_specSizes)
  next
    fix i assume "i < length (specSizes L n)"
    then have i: "i < n" using n(1) by (simp add: length_specSizes)
    have r: "L mod n < n" using n(1) by simp
    show "specSizes L n ! i = map (\<lambda>idx. if idx < (if L mod n = 0 then n else L mod n) then b else b - 1) [0..<n] ! i"
      using i r n(1) by (auto simp: specSizes_def specBase b_def nth_append Let_def)
  qed
  show ?thesis unfolding ps sp L_def [symmetric] n_def [symmetric] by (simp add: comp_def)
qed

lemma scheduleItems_slices:
  assumes "items \<noteq> []" "1 \<le> m"
  shows "scheduleItems items m
     = slices (specSizes (length items) (nat (numInstancesOf items m))) items"
proof -
  define n where "n = nat (numInstancesOf items m)"
  have n: "0 < n" "numInstancesOf items m = int n"
    using assms by (auto simp: n_def numInstancesOf_def)
  show ?thesis
    unfolding scheduleItems_def Let_def partitionSizesOf_spec [OF assms] n(2)
    using scheduleLoop_slices [of "specSizes (length items) n" n "replicate n []" 0 items] n(1)
    by (simp add: length_specSizes n_def)
qed



lemma map_length_scheduleItems:
  assumes "items \<noteq> []" "1 \<le> m"
  shows "map length (scheduleItems items m)
     = specSizes (length items) (nat (numInstancesOf items m))"
proof -
  have n: "0 < nat (numInstancesOf items m)"
    using assms by (auto simp: numInstancesOf_def)
  show ?thesis
    unfolding scheduleItems_slices [OF assms]
    by (rule map_length_slices) (simp add: sum_list_specSizes [OF n])
qed



lemma Max_Min_two_values:
  fixes sizes :: "nat list"
  assumes ne: "sizes \<noteq> []" and rng: "\<And>s. s \<in> set sizes \<Longrightarrow> s = base \<or> s = base - 1"
  shows "Max (set sizes) - Min (set sizes) \<le> 1"
proof -
  have "Max (set sizes) \<in> set sizes" "Min (set sizes) \<in> set sizes"
    using ne by simp_all
  then have "Max (set sizes) = base \<or> Max (set sizes) = base - 1"
     "Min (set sizes) = base \<or> Min (set sizes) = base - 1"
    using rng by blast+
  then show ?thesis by arith
qed

text \<open>
  Claim C1 (partition conservation): for every non-empty list \<open>items\<close> and every
  \<open>maxGroups \<ge> 1\<close>, the groups returned by \<^verbatim>\<open>scheduleItems(items, maxGroups)\<close>,
  concatenated in order, are \<open>items\<close> again, and the sizes of the groups add up to
  the length of \<open>items\<close>.
\<close>

theorem scheduleItems_conservation:
  assumes "items \<noteq> []" "1 \<le> maxGroups"
  shows "concat (scheduleItems items maxGroups) = items \<and>
         sum_list (map length (scheduleItems items maxGroups)) = length items"
proof -
  have n: "0 < nat (numInstancesOf items maxGroups)"
    using assms by (auto simp: numInstancesOf_def)
  have "concat (scheduleItems items maxGroups) = items"
    unfolding scheduleItems_slices [OF assms]
    by (simp add: concat_slices sum_list_specSizes [OF n])
  moreover have "sum_list (map length (scheduleItems items maxGroups)) = length items"
    unfolding map_length_scheduleItems [OF assms] by (rule sum_list_specSizes [OF n])
  ultimately show ?thesis by simp
qed

theorem scheduleItems_conservation_witness:
  "''abcdefg'' \<noteq> [] \<and> (1::int) \<le> 3 \<and>
   scheduleItems ''abcdefg'' 3 = [''abc'', ''de'', ''fg''] \<and>
   concat (scheduleItems ''abcdefg'' 3) = ''abcdefg'' \<and>
   sum_list (map length (scheduleItems ''abcdefg'' 3)) = length ''abcdefg''"
proof -
  have ev: "scheduleItems ''abcdefg'' 3 = [''abc'', ''de'', ''fg'']"
    by code_simp
  show ?thesis using scheduleItems_conservation [of "''abcdefg''" 3] ev by simp
qed

text \<open>
  Claim C2 (partition balance and deterministic skew): for non-empty \<open>items\<close> and
  \<open>maxGroups \<ge> 1\<close>, with \<open>numGroups = min (length items) maxGroups\<close> and
  \<open>base = \<lceil>length items / numGroups\<rceil>\<close>, all groups have size \<open>base\<close> when
  \<open>length items mod numGroups = 0\<close>; otherwise the first \<open>length items mod numGroups\<close>
  groups have size \<open>base\<close> and the others size \<open>base - 1\<close>. Hence the largest and the
  smallest group size differ by at most 1, and 10 items with \<open>maxGroups = 3\<close> give
  the sizes 4, 3, 3.
\<close>

theorem scheduleItems_balance:
  assumes "items \<noteq> []" "1 \<le> maxGroups"
  shows "(let numGroups = min (length items) (nat maxGroups);
              base = nat \<lceil>real (length items) / real numGroups\<rceil>;
              remainder = length items mod numGroups;
              sizes = map length (scheduleItems items maxGroups)
          in sizes = (if remainder = 0 then replicate numGroups base
                      else replicate remainder base @ replicate (numGroups - remainder) (base - 1))
             \<and> Max (set sizes) - Min (set sizes) \<le> 1)
         \<and> (length items = 10 \<and> maxGroups = 3 \<longrightarrow>
              map length (scheduleItems items maxGroups) = [4, 3, 3])"
proof -
  define n where "n = min (length items) (nat maxGroups)"
  have nn: "nat (numInstancesOf items maxGroups) = n"
    using assms by (auto simp: numInstancesOf_def n_def)
  have n: "0 < n" using assms by (auto simp: n_def)
  define sizes where "sizes = map length (scheduleItems items maxGroups)"
  have sz: "sizes = specSizes (length items) n"
    unfolding sizes_def map_length_scheduleItems [OF assms] nn ..
  define base where "base = nat \<lceil>real (length items) / real n\<rceil>"
  have shape: "sizes = (if length items mod n = 0 then replicate n base
      else replicate (length items mod n) base @ replicate (n - length items mod n) (base - 1))"
    unfolding sz by (simp add: specSizes_def Let_def base_def)
  have ne: "sizes \<noteq> []" using n sz length_specSizes [OF n, of "length items"] by auto
  have rng: "\<And>s. s \<in> set sizes \<Longrightarrow> s = base \<or> s = base - 1"
    unfolding sz base_def using specSizes_range [OF n] by blast
  have bal: "Max (set sizes) - Min (set sizes) \<le> 1"
    using ne rng by (rule Max_Min_two_values)
  have ex: "map length (scheduleItems items maxGroups) = [4, 3, 3]"
    if "length items = 10" "maxGroups = 3"
  proof -
    have n3: "n = 3" using that by (simp add: n_def)
    have b4: "base = 4" unfolding base_def n3 that(1) by simp
    have m: "(10::nat) mod 3 = 1" by simp
    have "replicate (Suc 0) (4::nat) @ replicate (3 - Suc 0) (4 - 1) = [4, 3, 3]"
      by (simp add: numeral_2_eq_2 numeral_3_eq_3)
    then show ?thesis using shape unfolding sizes_def b4 n3 that(1) m by simp
  qed
  show ?thesis using shape bal ex
    unfolding Let_def n_def [symmetric] base_def [symmetric] sizes_def [symmetric] by blast
qed

theorem scheduleItems_balance_witness:
  "[1, 2, 3, 4, 5, 6, 7, 8, 9, 10 :: nat] \<noteq> [] \<and> (1::int) \<le> 3 \<and>
   length [1, 2, 3, 4, 5, 6, 7, 8, 9, 10 :: nat] = 10 \<and>
   map length (scheduleItems [1, 2, 3, 4, 5, 6, 7, 8, 9, 10 :: nat] 3) = [4, 3, 3]"
proof -
  have len: "length [1, 2, 3, 4, 5, 6, 7, 8, 9, 10 :: nat] = 10" by simp
  have h1: "[1, 2, 3, 4, 5, 6, 7, 8, 9, 10 :: nat] \<noteq> []" by simp
  have h2: "(1::int) \<le> 3" by simp
  have "map length (scheduleItems [1, 2, 3, 4, 5, 6, 7, 8, 9, 10 :: nat] 3) = [4, 3, 3]"
    using scheduleItems_balance [OF h1 h2] len by blast
  then show ?thesis by simp
qed

text \<open>
  Claim C3 (partition cap): for non-empty \<open>items\<close> and \<open>maxGroups \<ge> 1\<close>,
  \<^verbatim>\<open>scheduleItems\<close> returns exactly \<open>min (length items) maxGroups\<close> groups and none
  of them is empty.
\<close>

theorem scheduleItems_cap:
  assumes "items \<noteq> []" "1 \<le> maxGroups"
  shows "int (length (scheduleItems items maxGroups)) = min (int (length items)) maxGroups \<and>
         [] \<notin> set (scheduleItems items maxGroups)"
proof -
  define n where "n = nat (numInstancesOf items maxGroups)"
  have n: "0 < n" "n \<le> length items" "int n = min (int (length items)) maxGroups"
    using assms by (auto simp: numInstancesOf_def n_def)
  have "length (map length (scheduleItems items maxGroups)) = n"
    unfolding map_length_scheduleItems [OF assms] n_def [symmetric]
    by (rule length_specSizes [OF n(1)])
  then have len: "int (length (scheduleItems items maxGroups)) = min (int (length items)) maxGroups"
    using n(3) by simp
  have "[] \<notin> set (scheduleItems items maxGroups)"
  proof
    assume "[] \<in> set (scheduleItems items maxGroups)"
    then have "0 \<in> set (map length (scheduleItems items maxGroups))"
      by (auto simp: image_iff intro: bexI [where x = "[]"])
    then have "0 \<in> set (specSizes (length items) n)"
      unfolding map_length_scheduleItems [OF assms] n_def .
    then show False using specSizes_pos [OF n(1,2)] by blast
  qed
  with len show ?thesis by simp
qed

theorem scheduleItems_cap_witness:
  "''ab'' \<noteq> [] \<and> (1::int) \<le> 16 \<and> int (length (scheduleItems ''ab'' 16)) = 2 \<and>
   [] \<notin> set (scheduleItems ''ab'' 16)"
  using scheduleItems_cap [of "''ab''" 16] by simp

text \<open>
  Claim C10 (empty input): for every \<open>availableInstances\<close>,
  \<^verbatim>\<open>scheduleItems([], availableInstances)\<close> returns the empty list of groups. When
  \<open>availableInstances\<close> is not negative, \<open>numInstances\<close> is 0 and the two size
  computations divide by zero: both are \<^verbatim>\<open>NaN\<close>, which no loop or array ever reads.
\<close>

theorem scheduleItems_empty:
  "scheduleItems ([] :: 'a list) availableInstances = [] \<and>
   (0 \<le> availableInstances \<longrightarrow>
      numInstancesOf ([] :: 'a list) availableInstances = 0 \<and>
      maxPerInstanceOf ([] :: 'a list) availableInstances = NaN \<and>
      lighterInstancesIdxOf ([] :: 'a list) availableInstances = NaN)"
proof -
  have le: "numInstancesOf ([] :: 'a list) availableInstances \<le> 0"
    by (simp add: numInstancesOf_def)
  then have "scheduleItems ([] :: 'a list) availableInstances = []"
    by (simp add: scheduleItems_def Let_def scheduleLoop_done)
  moreover have "numInstancesOf ([] :: 'a list) availableInstances = 0 \<and>
      maxPerInstanceOf ([] :: 'a list) availableInstances = NaN \<and>
      lighterInstancesIdxOf ([] :: 'a list) availableInstances = NaN"
    if "0 \<le> availableInstances"
    using that
    by (simp add: numInstancesOf_def maxPerInstanceOf_def lighterInstancesIdxOf_def
        ceilQuot_def jsRem_def)
  ultimately show ?thesis by blast
qed

theorem scheduleItems_empty_witness:
  "scheduleItems ([] :: string list) 16 = [] \<and> (0::int) \<le> 16 \<and>
   numInstancesOf ([] :: string list) 16 = 0 \<and>
   maxPerInstanceOf ([] :: string list) 16 = NaN \<and>
   lighterInstancesIdxOf ([] :: string list) 16 = NaN"
  using scheduleItems_empty [of 16, where ?'a = string] by simp

section \<open>Properties of getMatchingShards\<close>

lemma scanShards_union:
  "scanShards mm file shards ms = ms \<union> attributed mm shards file"
  unfolding attributed_def by (induction shards) (auto split: if_splits)

lemma scanFiles_union:
  "scanFiles mm shards files ms = ms \<union> (\<Union>file\<in>set files. attributed mm shards file)"
proof (induction files arbitrary: ms)
  case Nil
  then show ?case by simp
next
  case (Cons f fs)
  show ?case
    unfolding scanFiles.simps Cons.IH scanShards_union [of mm f shards ms] by auto
qed

lemma getMatchingShards_filter:
  "getMatchingShards mm shards files
     = filter (\<lambda>shard. \<exists>file\<in>set files. shard \<in> attributed mm shards file) (map fst shards)"
  unfolding getMatchingShards_def scanFiles_union by simp

lemma attributed_first:
  assumes "j < length shards" "shardMatches mm file (snd (shards ! j))"
    "\<forall>h<j. \<not> shardMatches mm file (snd (shards ! h))"
  shows "attributed mm shards file = {fst (shards ! j)}"
  using assms unfolding attributed_def
proof (induction shards arbitrary: j)
  case Nil
  then show ?case by simp
next
  case (Cons e entries)
  obtain key cfg where e: "e = (key, cfg)" by (cases e)
  show ?case
  proof (cases j)
    case 0
    with Cons.prems e show ?thesis by simp
  next
    case (Suc j')
    have no: "\<not> shardMatches mm file cfg" using Cons.prems(3) Suc e by force
    have "\<forall>h<j'. \<not> shardMatches mm file (snd (entries ! h))"
      using Cons.prems(3) Suc by force
    then have "scanShards mm file entries {} = {fst (entries ! j')}"
      using Cons.IH [of j'] Cons.prems(1,2) Suc by simp
    then show ?thesis using no e Suc by simp
  qed
qed

lemma attributed_position:
  assumes "s \<in> attributed mm shards file"
  shows "\<exists>j<length shards. fst (shards ! j) = s \<and> shardMatches mm file (snd (shards ! j)) \<and>
           (\<forall>h<j. \<not> shardMatches mm file (snd (shards ! h)))"
  using assms unfolding attributed_def
proof (induction shards)
  case Nil
  then show ?case by simp
next
  case (Cons e entries)
  obtain key cfg where e: "e = (key, cfg)" by (cases e)
  show ?case
  proof (cases "shardMatches mm file cfg")
    case True
    then have "s = key" using Cons.prems e by simp
    then have "0 < length (e # entries) \<and> fst ((e # entries) ! 0) = s \<and>
        shardMatches mm file (snd ((e # entries) ! 0)) \<and>
        (\<forall>h<0. \<not> shardMatches mm file (snd ((e # entries) ! h)))"
      using True e by simp
    then show ?thesis by blast
  next
    case False
    then have "s \<in> scanShards mm file entries {}" using Cons.prems e by simp
    then obtain j where j: "j < length entries" "fst (entries ! j) = s"
        "shardMatches mm file (snd (entries ! j))"
        "\<forall>h<j. \<not> shardMatches mm file (snd (entries ! h))"
      using Cons.IH by blast
    have "\<forall>h<Suc j. \<not> shardMatches mm file (snd ((e # entries) ! h))"
    proof (intro allI impI)
      fix h assume "h < Suc j"
      then show "\<not> shardMatches mm file (snd ((e # entries) ! h))"
        using False e j(4) by (cases h) auto
    qed
    then have "Suc j < length (e # entries) \<and> fst ((e # entries) ! Suc j) = s \<and>
        shardMatches mm file (snd ((e # entries) ! Suc j)) \<and>
        (\<forall>h<Suc j. \<not> shardMatches mm file (snd ((e # entries) ! h)))"
      using j by simp
    then show ?thesis by blast
  qed
qed

lemma attributed_at_most_one:
  assumes "s \<in> attributed mm shards file" "s' \<in> attributed mm shards file"
  shows "s = s'"
proof -
  obtain j where j: "j < length shards" "fst (shards ! j) = s"
      "shardMatches mm file (snd (shards ! j))"
      "\<forall>h<j. \<not> shardMatches mm file (snd (shards ! h))"
    using attributed_position [OF assms(1)] by blast
  have "attributed mm shards file = {s}"
    using attributed_first [OF j(1,3,4)] j(2) by simp
  with assms(2) show ?thesis by simp
qed

lemma position_unique:
  assumes "distinct (map fst shards)" "i < length shards" "j < length shards"
    "fst (shards ! i) = fst (shards ! j)"
  shows "i = j"
proof -
  have "map fst shards ! i = map fst shards ! j" using assms(2,3,4) by simp
  then show ?thesis
    using nth_eq_iff_index_eq [of "map fst shards" i j] assms(1,2,3) by simp
qed

lemma attributed_only_first:
  assumes d: "distinct (map fst shards)" and j: "j < length shards"
    and a: "fst (shards ! j) \<in> attributed mm shards file"
  shows "shardMatches mm file (snd (shards ! j)) \<and>
         (\<forall>h<j. \<not> shardMatches mm file (snd (shards ! h)))"
proof -
  obtain j' where j': "j' < length shards" "fst (shards ! j') = fst (shards ! j)"
      "shardMatches mm file (snd (shards ! j'))"
      "\<forall>h<j'. \<not> shardMatches mm file (snd (shards ! h))"
    using attributed_position [OF a] by blast
  have "j' = j" using position_unique [OF d j'(1) j j'(2)] .
  with j'(3,4) show ?thesis by simp
qed

lemma testShards_distinct: "distinct (map fst testShards)"
  by (simp add: testShards_def)

lemma attributed_auth:
  "attributed literalGlob testShards ''lib/util/git/auth.ts'' = {''git-2''}"
  by (simp add: attributed_def testShards_def shardMatches_def changedFilePatterns_def
      literalGlob_def endsWith_def startsWith_def replaceSpecTs_def)

lemma matches_auth_14:
  "shardMatches literalGlob ''lib/util/git/auth.ts'' (snd (testShards ! 14))"
  by (simp add: testShards_def shardMatches_def changedFilePatterns_def
      literalGlob_def endsWith_def startsWith_def replaceSpecTs_def)

lemma matches_auth_15:
  "shardMatches literalGlob ''lib/util/git/auth.ts'' (snd (testShards ! 15))"
  by (simp add: testShards_def shardMatches_def changedFilePatterns_def
      literalGlob_def endsWith_def startsWith_def replaceSpecTs_def)

lemma attributed_none:
  assumes "\<forall>j<length shards. \<not> shardMatches mm f (snd (shards ! j))"
  shows "attributed mm shards f = {}"
proof (rule ccontr)
  assume "attributed mm shards f \<noteq> {}"
  then obtain s where "s \<in> attributed mm shards f" by blast
  then show False using attributed_position assms by blast
qed

lemma attributed_keys: "attributed mm shards f \<subseteq> set (map fst shards)"
proof
  fix s assume "s \<in> attributed mm shards f"
  then obtain j where "j < length shards" "fst (shards ! j) = s"
    using attributed_position by blast
  then show "s \<in> set (map fst shards)" by (metis length_map nth_map nth_mem)
qed

lemma set_getMatchingShards:
  "set (getMatchingShards mm shards files) = (\<Union>f\<in>set files. attributed mm shards f)"
  unfolding getMatchingShards_filter using attributed_keys by fastforce

lemma attributed_config:
  "attributed literalGlob testShards ''lib/config/index.ts'' = {''other''}"
  by (simp add: attributed_def testShards_def shardMatches_def changedFilePatterns_def
      literalGlob_def endsWith_def startsWith_def replaceSpecTs_def)

lemma attributed_readme:
  "attributed literalGlob testShards ''README.md'' = {}"
  by (simp add: attributed_def testShards_def shardMatches_def changedFilePatterns_def
      literalGlob_def endsWith_def startsWith_def replaceSpecTs_def)

lemma no_match_before_other:
  "list_all (\<lambda>e. \<not> shardMatches literalGlob ''lib/config/index.ts'' (snd e))
     (take 15 testShards)"
  by (simp add: testShards_def shardMatches_def changedFilePatterns_def
      literalGlob_def endsWith_def startsWith_def replaceSpecTs_def)

lemma matches_config_15:
  "shardMatches literalGlob ''lib/config/index.ts'' (snd (testShards ! 15))"
  by (simp add: testShards_def shardMatches_def changedFilePatterns_def
      literalGlob_def endsWith_def startsWith_def replaceSpecTs_def)

lemma matches_auth_13:
  "shardMatches literalGlob ''lib/util/git/auth.ts'' (snd (testShards ! 13))"
  by (simp add: testShards_def shardMatches_def changedFilePatterns_def
      literalGlob_def endsWith_def startsWith_def replaceSpecTs_def)

text \<open>
  Claim C4 (first match wins), as the code has it: every file is attributed to at most
  one shard, namely the first shard of the registry that matches it, and to none when
  no shard matches. When a file matches two shards, the one declared later never gets
  it. The selected shards are the union of the attributions of the changed files: a
  shard is selected exactly when some changed file matches it and no shard declared
  before it.
\<close>

theorem getMatchingShards_first_match:
  assumes "distinct (map fst shards)"
  shows "(\<forall>file s s'. s \<in> attributed mm shards file \<and> s' \<in> attributed mm shards file
            \<longrightarrow> s = s') \<and>
         (\<forall>file j. j < length shards \<and> shardMatches mm file (snd (shards ! j)) \<and>
             (\<forall>h<j. \<not> shardMatches mm file (snd (shards ! h)))
            \<longrightarrow> attributed mm shards file = {fst (shards ! j)}) \<and>
         (\<forall>file. (\<forall>j<length shards. \<not> shardMatches mm file (snd (shards ! j)))
            \<longrightarrow> attributed mm shards file = {}) \<and>
         (\<forall>file i j. i < j \<and> j < length shards \<and>
             shardMatches mm file (snd (shards ! i)) \<and> shardMatches mm file (snd (shards ! j))
            \<longrightarrow> fst (shards ! j) \<notin> attributed mm shards file) \<and>
         set (getMatchingShards mm shards files)
            = (\<Union>file\<in>set files. attributed mm shards file) \<and>
         (\<forall>j<length shards.
            (fst (shards ! j) \<in> set (getMatchingShards mm shards files)) =
            (\<exists>file\<in>set files. shardMatches mm file (snd (shards ! j)) \<and>
                   (\<forall>h<j. \<not> shardMatches mm file (snd (shards ! h)))))"
proof -
  have 1: "\<forall>f s s'. s \<in> attributed mm shards f \<and> s' \<in> attributed mm shards f \<longrightarrow> s = s'"
    using attributed_at_most_one by blast
  have 2: "\<forall>f j. j < length shards \<and> shardMatches mm f (snd (shards ! j)) \<and>
             (\<forall>h<j. \<not> shardMatches mm f (snd (shards ! h)))
            \<longrightarrow> attributed mm shards f = {fst (shards ! j)}"
    using attributed_first by blast
  have 3: "\<forall>f. (\<forall>j<length shards. \<not> shardMatches mm f (snd (shards ! j)))
            \<longrightarrow> attributed mm shards f = {}"
    using attributed_none by blast
  have 4: "\<forall>f i j. i < j \<and> j < length shards \<and>
             shardMatches mm f (snd (shards ! i)) \<and> shardMatches mm f (snd (shards ! j))
            \<longrightarrow> fst (shards ! j) \<notin> attributed mm shards f"
  proof (intro allI impI)
    fix f i j
    assume h: "i < j \<and> j < length shards \<and>
       shardMatches mm f (snd (shards ! i)) \<and> shardMatches mm f (snd (shards ! j))"
    show "fst (shards ! j) \<notin> attributed mm shards f"
    proof
      assume "fst (shards ! j) \<in> attributed mm shards f"
      then have "\<forall>h<j. \<not> shardMatches mm f (snd (shards ! h))"
        using attributed_only_first [OF assms] h by blast
      with h show False by blast
    qed
  qed
  have 5: "set (getMatchingShards mm shards files) = (\<Union>f\<in>set files. attributed mm shards f)"
    by (rule set_getMatchingShards)
  have 6: "\<forall>j<length shards.
            (fst (shards ! j) \<in> set (getMatchingShards mm shards files)) =
            (\<exists>f\<in>set files. shardMatches mm f (snd (shards ! j)) \<and>
                   (\<forall>h<j. \<not> shardMatches mm f (snd (shards ! h))))"
  proof (intro allI impI iffI)
    fix j
    assume j: "j < length shards"
      and "fst (shards ! j) \<in> set (getMatchingShards mm shards files)"
    then obtain f where f: "f \<in> set files" "fst (shards ! j) \<in> attributed mm shards f"
      unfolding 5 by blast
    show "\<exists>f\<in>set files. shardMatches mm f (snd (shards ! j)) \<and>
            (\<forall>h<j. \<not> shardMatches mm f (snd (shards ! h)))"
      using attributed_only_first [OF assms j f(2)] f(1) by blast
  next
    fix j
    assume j: "j < length shards"
      and "\<exists>f\<in>set files. shardMatches mm f (snd (shards ! j)) \<and>
            (\<forall>h<j. \<not> shardMatches mm f (snd (shards ! h)))"
    then obtain f where f: "f \<in> set files" "shardMatches mm f (snd (shards ! j))"
        "\<forall>h<j. \<not> shardMatches mm f (snd (shards ! h))"
      by blast
    have "attributed mm shards f = {fst (shards ! j)}"
      using attributed_first [OF j f(2,3)] .
    then show "fst (shards ! j) \<in> set (getMatchingShards mm shards files)"
      unfolding 5 using f(1) by blast
  qed
  from 1 2 3 4 5 6 show ?thesis by blast
qed

theorem getMatchingShards_first_match_witness:
  "distinct (map fst testShards) \<and> (15::nat) < length testShards \<and>
   shardMatches literalGlob ''lib/config/index.ts'' (snd (testShards ! 15)) \<and>
   list_all (\<lambda>e. \<not> shardMatches literalGlob ''lib/config/index.ts'' (snd e))
     (take 15 testShards) \<and>
   attributed literalGlob testShards ''lib/config/index.ts'' = {fst (testShards ! 15)} \<and>
   fst (testShards ! 15) = ''other'' \<and>
   (13::nat) < 14 \<and> (14::nat) < length testShards \<and>
   shardMatches literalGlob ''lib/util/git/auth.ts'' (snd (testShards ! 13)) \<and>
   shardMatches literalGlob ''lib/util/git/auth.ts'' (snd (testShards ! 14)) \<and>
   fst (testShards ! 14) \<notin> attributed literalGlob testShards ''lib/util/git/auth.ts'' \<and>
   fst (testShards ! 15) \<in> set (getMatchingShards literalGlob testShards
      [''lib/config/index.ts'', ''README.md'']) \<and>
   set (getMatchingShards literalGlob testShards [''lib/config/index.ts'', ''README.md''])
     = {''other''}"
proof -
  have l: "(15::nat) < length testShards" "(14::nat) < length testShards"
    by (simp_all add: testShards_def)
  have k15: "fst (testShards ! 15) = ''other''" by (simp add: testShards_def)
  have lt: "(13::nat) < 14" by simp
  have n15: "\<forall>h<15. \<not> shardMatches literalGlob ''lib/config/index.ts'' (snd (testShards ! h))"
  proof (intro allI impI)
    fix h :: nat assume h: "h < 15"
    then have "h < length (take 15 testShards)" using l(1) by simp
    then have "\<not> shardMatches literalGlob ''lib/config/index.ts'' (snd (take 15 testShards ! h))"
      using no_match_before_other by (simp add: list_all_length)
    then show "\<not> shardMatches literalGlob ''lib/config/index.ts'' (snd (testShards ! h))"
      using h by simp
  qed
  note fm = getMatchingShards_first_match [OF testShards_distinct, of literalGlob
      "[''lib/config/index.ts'', ''README.md'']"]
  note first = fm [THEN conjunct2, THEN conjunct1, rule_format]
  note later = fm [THEN conjunct2, THEN conjunct2, THEN conjunct2, THEN conjunct1, rule_format]
  note sel = fm [THEN conjunct2, THEN conjunct2, THEN conjunct2, THEN conjunct2, THEN conjunct1]
  note iff = fm [THEN conjunct2, THEN conjunct2, THEN conjunct2, THEN conjunct2,
      THEN conjunct2, rule_format]
  have a: "attributed literalGlob testShards ''lib/config/index.ts'' = {fst (testShards ! 15)}"
    using first [of 15 "''lib/config/index.ts''"] l(1) matches_config_15 n15 by simp
  have b: "fst (testShards ! 14) \<notin> attributed literalGlob testShards ''lib/util/git/auth.ts''"
    using later [of 13 14 "''lib/util/git/auth.ts''"] lt l(2) matches_auth_13 matches_auth_14
    by simp
  have "\<exists>f\<in>set [''lib/config/index.ts'', ''README.md''].
      shardMatches literalGlob f (snd (testShards ! 15)) \<and>
      (\<forall>h<15. \<not> shardMatches literalGlob f (snd (testShards ! h)))"
    using matches_config_15 n15 by simp
  then have c: "fst (testShards ! 15) \<in> set (getMatchingShards literalGlob testShards
      [''lib/config/index.ts'', ''README.md''])"
    using iff [OF l(1)] by simp
  have e: "set (getMatchingShards literalGlob testShards [''lib/config/index.ts'', ''README.md''])
     = {''other''}"
    unfolding sel by (simp add: attributed_config attributed_readme)
  from testShards_distinct l lt k15 matches_config_15 no_match_before_other a b c e
    matches_auth_13 matches_auth_14
  show ?thesis by - (intro conjI; assumption)
qed

text \<open>
  The claim as it is written gives a file that matches two shards to the earlier of
  the two. In the registry of the source \<^verbatim>\<open>util\<close> precedes \<^verbatim>\<open>other\<close>, and
  \<^verbatim>\<open>lib/util/git/auth.ts\<close> matches both; it is attributed to \<^verbatim>\<open>git-2\<close>, which is
  declared before both and matches as well.
\<close>

theorem getMatchingShards_first_match_counterexample:
  "fst (testShards ! 14) = ''util'' \<and> fst (testShards ! 15) = ''other'' \<and>
   shardMatches literalGlob ''lib/util/git/auth.ts'' (snd (testShards ! 14)) \<and>
   shardMatches literalGlob ''lib/util/git/auth.ts'' (snd (testShards ! 15)) \<and>
   attributed literalGlob testShards ''lib/util/git/auth.ts'' = {''git-2''} \<and>
   ''util'' \<notin> attributed literalGlob testShards ''lib/util/git/auth.ts''"
proof -
  have "fst (testShards ! 14) = ''util''" "fst (testShards ! 15) = ''other''"
    by (simp_all add: testShards_def)
  moreover have "''util'' \<notin> attributed literalGlob testShards ''lib/util/git/auth.ts''"
    unfolding attributed_auth by simp
  ultimately show ?thesis using matches_auth_14 matches_auth_15 attributed_auth by blast
qed

text \<open>
  Claim C9 (canonical order, empty edge): the selected shard names have no duplicates
  and come in registry order, whatever the order of the changed files; for the empty
  list of changed files the result is the empty list.
\<close>

theorem getMatchingShards_canonical:
  assumes "distinct (map fst shards)"
  shows "distinct (getMatchingShards mm shards files) \<and>
         subseq (getMatchingShards mm shards files) (map fst shards) \<and>
         (\<forall>files'. mset files' = mset files \<longrightarrow>
            getMatchingShards mm shards files' = getMatchingShards mm shards files) \<and>
         getMatchingShards mm shards [] = []"
proof -
  have 1: "distinct (getMatchingShards mm shards files)"
    unfolding getMatchingShards_def using assms by (rule distinct_filter)
  have 2: "subseq (getMatchingShards mm shards files) (map fst shards)"
    unfolding getMatchingShards_def by (rule subseq_filter_left)
  have 3: "getMatchingShards mm shards files' = getMatchingShards mm shards files"
    if "mset files' = mset files" for files'
  proof -
    have "set files' = set files" using that by (rule mset_eq_setD)
    then show ?thesis unfolding getMatchingShards_filter by simp
  qed
  have 4: "getMatchingShards mm shards [] = []"
    by (simp add: getMatchingShards_def)
  from 1 2 3 4 show ?thesis by blast
qed

theorem getMatchingShards_canonical_witness:
  "distinct (map fst testShards) \<and>
   mset [''lib/util/git/index.ts'', ''lib/workers/foo.ts'']
     = mset [''lib/workers/foo.ts'', ''lib/util/git/index.ts''] \<and>
   getMatchingShards literalGlob testShards [''lib/workers/foo.ts'', ''lib/util/git/index.ts'']
     = [''workers-4'', ''git-1''] \<and>
   getMatchingShards literalGlob testShards [''lib/util/git/index.ts'', ''lib/workers/foo.ts'']
     = [''workers-4'', ''git-1'']"
proof -
  have d: "distinct (map fst testShards)" by (simp add: testShards_def)
  have m: "mset [''lib/util/git/index.ts'', ''lib/workers/foo.ts'']
     = mset [''lib/workers/foo.ts'', ''lib/util/git/index.ts'']" by simp
  have ev: "getMatchingShards literalGlob testShards
      [''lib/workers/foo.ts'', ''lib/util/git/index.ts''] = [''workers-4'', ''git-1'']"
    by code_simp
  have "getMatchingShards literalGlob testShards [''lib/util/git/index.ts'', ''lib/workers/foo.ts'']
      = getMatchingShards literalGlob testShards [''lib/workers/foo.ts'', ''lib/util/git/index.ts'']"
    using getMatchingShards_canonical [OF d, of literalGlob
        "[''lib/workers/foo.ts'', ''lib/util/git/index.ts'']"] m by blast
  with d m ev show ?thesis by simp
qed

section \<open>Properties of configureShardingOrFallbackTo\<close>

lemma priorTestExclusions_Suc:
  "priorTestExclusions ((key, cfg) # entries) (Suc k)
     = map (\<lambda>pattern. ''!**/'' @ normalizePattern pattern ''.spec.ts'') (matchPaths cfg)
         @ priorTestExclusions entries k"
  by (simp add: priorTestExclusions_def)

lemma priorCoverageExclusions_Suc:
  "priorCoverageExclusions ((key, cfg) # entries) (Suc k)
     = map (\<lambda>pattern. ''!'' @ normalizePattern pattern ''.ts'') (matchPaths cfg)
         @ priorCoverageExclusions entries k"
  by (simp add: priorCoverageExclusions_def)

lemma shardLoop_target:
  assumes "distinct (map fst shards)" "k < length shards" "shards ! k = (shardKey, cfg)"
  shows "shardLoop shardKey shards st =
     \<lparr>testMatchAcc = testMatchAcc st @ priorTestExclusions shards k @
        map (\<lambda>pattern. ''<rootDir>/'' @ normalizePattern pattern ''.spec.ts'') (matchPaths cfg),
      collectCoverageFromAcc = collectCoverageFromAcc st @ priorCoverageExclusions shards k @
        map (\<lambda>pattern. normalizePattern pattern ''.ts'') (matchPaths cfg),
      globalAcc = (case threshold cfg of None \<Rightarrow> globalAcc st
                   | Some t \<Rightarrow> spreadThreshold (globalAcc st) t)\<rparr>"
  using assms
proof (induction shards arbitrary: k st)
  case Nil
  then show ?case by simp
next
  case (Cons e entries)
  obtain key c where e: "e = (key, c)" by (cases e)
  show ?case
  proof (cases k)
    case 0
    then have "key = shardKey" "c = cfg" using Cons.prems(3) e by simp_all
    then show ?thesis using 0 e
      by (simp add: priorTestExclusions_def priorCoverageExclusions_def)
  next
    case (Suc k')
    have k': "k' < length entries" "entries ! k' = (shardKey, cfg)"
      using Cons.prems(2,3) Suc by simp_all
    then have "shardKey \<in> set (map fst entries)"
      by (metis fst_conv length_map nth_map nth_mem)
    then have ne: "key \<noteq> shardKey" using Cons.prems(1) e by auto
    have d: "distinct (map fst entries)" using Cons.prems(1) by simp
    show ?thesis
      unfolding e Suc priorTestExclusions_Suc priorCoverageExclusions_Suc
      using ne by (simp add: Cons.IH [OF d k'] split: option.split)
  qed
qed

lemma shardLoop_absent:
  assumes "shardKey \<notin> set (map fst shards)"
  shows "shardLoop shardKey shards st =
     \<lparr>testMatchAcc = testMatchAcc st @ priorTestExclusions shards (length shards),
      collectCoverageFromAcc =
        collectCoverageFromAcc st @ priorCoverageExclusions shards (length shards),
      globalAcc = globalAcc st\<rparr>"
  using assms
proof (induction shards arbitrary: st)
  case Nil
  then show ?case by (simp add: priorTestExclusions_def priorCoverageExclusions_def)
next
  case (Cons e entries)
  obtain key c where e: "e = (key, c)" by (cases e)
  have ne: "key \<noteq> shardKey" and a: "shardKey \<notin> set (map fst entries)"
    using Cons.prems e by auto
  show ?case
    unfolding e length_Cons priorTestExclusions_Suc priorCoverageExclusions_Suc
    using ne by (simp add: Cons.IH [OF a])
qed

lemma startsWith_bang: "startsWith s ''!'' = (\<exists>t. s = CHR ''!'' # t)"
  by (cases s) (auto simp: startsWith_def)

lemma take_Cons_not_bang:
  "c \<noteq> CHR ''!'' \<Longrightarrow> take n (c # cs) @ ''.ts'' \<noteq> CHR ''!'' # t"
  by (cases n) auto

lemma normalizePattern_not_exclusion:
  assumes "\<not> startsWith pattern ''!''"
  shows "\<not> startsWith (normalizePattern pattern ''.ts'') ''!''"
proof (cases pattern)
  case Nil
  then show ?thesis
    by (simp add: startsWith_bang normalizePattern_def endsWith_def)
next
  case (Cons c cs)
  then have c: "c \<noteq> CHR ''!''" using assms by (simp add: startsWith_bang)
  show ?thesis
  proof (cases "endsWith pattern ''.spec.ts''")
    case False
    then show ?thesis using Cons c by (simp add: startsWith_bang normalizePattern_def)
  next
    case True
    then show ?thesis using Cons take_Cons_not_bang [OF c]
      by (simp add: startsWith_bang normalizePattern_def replaceSpecTs_def)
  qed
qed

lemma exclusionEntries_append:
  "exclusionEntries (xs @ ys) = exclusionEntries xs @ exclusionEntries ys"
  by (simp add: exclusionEntries_def)

lemma exclusionEntries_rev: "exclusionEntries (rev xs) = rev (exclusionEntries xs)"
  by (simp add: exclusionEntries_def rev_filter)

lemma exclusionEntries_priorTest:
  "exclusionEntries (priorTestExclusions shards k) = priorTestExclusions shards k"
  unfolding exclusionEntries_def priorTestExclusions_def
  by (rule filter_True) (auto simp: startsWith_bang)

lemma exclusionEntries_priorCoverage:
  "exclusionEntries (priorCoverageExclusions shards k) = priorCoverageExclusions shards k"
  unfolding exclusionEntries_def priorCoverageExclusions_def
  by (rule filter_True) (auto simp: startsWith_bang)

lemma exclusionEntries_initial:
  "exclusionEntries (initialCollectCoverageFrom fallback) = initialCollectCoverageFrom fallback"
  by (simp add: exclusionEntries_def initialCollectCoverageFrom_def split: option.split)

lemma exclusionEntries_rootDir:
  "exclusionEntries (map (\<lambda>pattern. ''<rootDir>/'' @ normalizePattern pattern ''.spec.ts'') ps) = []"
  by (simp add: exclusionEntries_def startsWith_bang)

lemma exclusionEntries_inclusions:
  assumes "\<forall>pattern\<in>set ps. \<not> startsWith pattern ''!''"
  shows "exclusionEntries (map (\<lambda>pattern. normalizePattern pattern ''.ts'') ps) = []"
  using assms normalizePattern_not_exclusion
  by (auto simp: exclusionEntries_def filter_empty_conv)

lemma configure_target:
  assumes "distinct (map fst shards)" "k < length shards" "shards ! k = (shardKey, cfg)"
    "shardKey \<noteq> []"
  shows "configureShardingOrFallbackTo shards (Some shardKey) fallback =
     Inr \<lparr>testMatch = Some (rev (priorTestExclusions shards k @
             map (\<lambda>pattern. ''<rootDir>/'' @ normalizePattern pattern ''.spec.ts'')
               (matchPaths cfg))),
          collectCoverageFrom = Some (rev (initialCollectCoverageFrom fallback @
             priorCoverageExclusions shards k @
             map (\<lambda>pattern. normalizePattern pattern ''.ts'') (matchPaths cfg))),
          coverageThreshold = Some \<lparr>global = Some
             (case threshold cfg of None \<Rightarrow> initialGlobal fallback
              | Some t \<Rightarrow> spreadThreshold (initialGlobal fallback) t)\<rparr>,
          coverageDirectory = Some (''./coverage/shard/'' @ shardKey)\<rparr>"
proof -
  have "shardKey \<in> set (map fst shards)"
    using assms(2,3) by (metis fst_conv length_map nth_map nth_mem)
  then have "lookupTruthy shards shardKey" by (simp add: lookupTruthy_def)
  then show ?thesis
    using assms(4)
    by (simp add: configureShardingOrFallbackTo_def Let_def shardLoop_target [OF assms(1,2,3)]
        split: option.split)
qed

lemma testShards_0:
  "testShards ! 0 = (''datasources-1'',
      \<lparr>matchPaths = [''lib/modules/datasource/[a-g]*''],
       threshold = Some \<lparr>branches = Some 96.95, functions = None, lines = None,
         statements = None\<rparr>\<rparr>)"
  by (simp add: testShards_def)

text \<open>
  Claim C5 (exclusion law), as the code has it: for a target shard at position \<open>k\<close>
  whose own patterns do not begin with \<^verbatim>\<open>!\<close>, the exclusions of \<^verbatim>\<open>testMatch\<close> are
  exactly the test-file normalizations of the shards at positions \<open>0..k-1\<close>, and the
  exclusions of \<^verbatim>\<open>collectCoverageFrom\<close> are the source-file normalizations of those
  shards together with the exclusion patterns of the fallback configuration; both lists
  are returned in reverse order.
\<close>

theorem resolver_exclusions:
  assumes "distinct (map fst shards)" "k < length shards" "shards ! k = (shardKey, cfg)"
    "shardKey \<noteq> []" "\<forall>pattern\<in>set (matchPaths cfg). \<not> startsWith pattern ''!''"
  shows "map_option exclusionEntries
           (resolvedTestMatch (configureShardingOrFallbackTo shards (Some shardKey) fallback))
         = Some (rev (priorTestExclusions shards k)) \<and>
         map_option exclusionEntries
           (resolvedCollectCoverageFrom
              (configureShardingOrFallbackTo shards (Some shardKey) fallback))
         = Some (rev (initialCollectCoverageFrom fallback @ priorCoverageExclusions shards k))"
proof -
  have tm: "exclusionEntries (rev (priorTestExclusions shards k @
        map (\<lambda>pattern. ''<rootDir>/'' @ normalizePattern pattern ''.spec.ts'') (matchPaths cfg)))
      = rev (priorTestExclusions shards k)"
    by (simp only: exclusionEntries_rev exclusionEntries_append exclusionEntries_priorTest
        exclusionEntries_rootDir append_Nil2)
  have cc: "exclusionEntries (rev (initialCollectCoverageFrom fallback @
        priorCoverageExclusions shards k @
        map (\<lambda>pattern. normalizePattern pattern ''.ts'') (matchPaths cfg)))
      = rev (initialCollectCoverageFrom fallback @ priorCoverageExclusions shards k)"
    by (simp only: exclusionEntries_rev exclusionEntries_append exclusionEntries_priorCoverage
        exclusionEntries_initial exclusionEntries_inclusions [OF assms(5)] append_Nil2)
  show ?thesis
    unfolding configure_target [OF assms(1-4)] resolvedTestMatch_def
      resolvedCollectCoverageFrom_def
    by (simp only: sum.case JestShardedSubconfig.simps option.map tm cc)
qed

theorem resolver_exclusions_witness:
  "distinct (map fst testShards) \<and> (1::nat) < length testShards \<and>
   testShards ! 1 = (''datasources-2'',
      \<lparr>matchPaths = [''lib/modules/datasource''],
       threshold = Some \<lparr>branches = Some 96.0, functions = Some 98.25, lines = Some 99.35,
         statements = Some 99.35\<rparr>\<rparr>) \<and>
   ''datasources-2'' \<noteq> [] \<and>
   \<not> startsWith ''lib/modules/datasource'' ''!'' \<and>
   map_option exclusionEntries
     (resolvedTestMatch
        (configureShardingOrFallbackTo testShards (Some ''datasources-2'') fallbackConfig))
     = Some [''!**/lib/modules/datasource/[a-g]*/**/*.spec.ts''] \<and>
   map_option exclusionEntries
     (resolvedCollectCoverageFrom
        (configureShardingOrFallbackTo testShards (Some ''datasources-2'') fallbackConfig))
     = Some [''!lib/modules/datasource/[a-g]*/**/*.ts'', ''!lib/**/types.ts'',
         ''!lib/**/{__fixtures__,__mocks__,__testutil__,test}/**/*.{js,ts}'',
         ''!lib/**/*.{d,spec}.ts'']"
proof -
  have k: "(1::nat) < length testShards" by (simp add: testShards_def)
  have e: "testShards ! 1 = (''datasources-2'',
      \<lparr>matchPaths = [''lib/modules/datasource''],
       threshold = Some \<lparr>branches = Some 96.0, functions = Some 98.25, lines = Some 99.35,
         statements = Some 99.35\<rparr>\<rparr>)"
    by (simp add: testShards_def)
  have n: "''datasources-2'' \<noteq> []" by simp
  have b: "\<not> startsWith ''lib/modules/datasource'' ''!''" by (simp add: startsWith_def)
  have p: "\<forall>pattern\<in>set (matchPaths \<lparr>matchPaths = [''lib/modules/datasource''],
       threshold = Some \<lparr>branches = Some 96.0, functions = Some 98.25, lines = Some 99.35,
         statements = Some 99.35\<rparr>\<rparr>). \<not> startsWith pattern ''!''"
    using b by simp
  have t: "priorTestExclusions testShards 1 = [''!**/lib/modules/datasource/[a-g]*/**/*.spec.ts'']"
    by (simp add: priorTestExclusions_def testShards_def normalizePattern_def endsWith_def)
  have c: "priorCoverageExclusions testShards 1 = [''!lib/modules/datasource/[a-g]*/**/*.ts'']"
    by (simp add: priorCoverageExclusions_def testShards_def normalizePattern_def endsWith_def)
  have i: "initialCollectCoverageFrom fallbackConfig = [''!lib/**/*.{d,spec}.ts'',
        ''!lib/**/{__fixtures__,__mocks__,__testutil__,test}/**/*.{js,ts}'',
        ''!lib/**/types.ts'']"
    by (simp add: initialCollectCoverageFrom_def fallbackConfig_def startsWith_def)
  have r1: "rev (priorTestExclusions testShards 1)
      = [''!**/lib/modules/datasource/[a-g]*/**/*.spec.ts'']"
    unfolding t by simp
  have r2: "rev (initialCollectCoverageFrom fallbackConfig @ priorCoverageExclusions testShards 1)
      = [''!lib/modules/datasource/[a-g]*/**/*.ts'', ''!lib/**/types.ts'',
         ''!lib/**/{__fixtures__,__mocks__,__testutil__,test}/**/*.{js,ts}'',
         ''!lib/**/*.{d,spec}.ts'']"
    unfolding c i by simp
  note resolver_exclusions [OF testShards_distinct k e n p, of fallbackConfig, unfolded r1 r2]
  with testShards_distinct k e n b show ?thesis by blast
qed

text \<open>
  The claim as it is written allows no exclusion besides those of the preceding
  shards. For the first shard of the registry there is none of these, and
  \<^verbatim>\<open>collectCoverageFrom\<close> still holds the three exclusions of the fallback
  configuration.
\<close>

theorem resolver_exclusions_counterexample:
  "fst (testShards ! 0) = ''datasources-1'' \<and>
   priorCoverageExclusions testShards 0 = [] \<and>
   map_option exclusionEntries
     (resolvedCollectCoverageFrom
        (configureShardingOrFallbackTo testShards (Some ''datasources-1'') fallbackConfig))
     = Some [''!lib/**/types.ts'',
         ''!lib/**/{__fixtures__,__mocks__,__testutil__,test}/**/*.{js,ts}'',
         ''!lib/**/*.{d,spec}.ts'']"
proof -
  have 1: "fst (testShards ! 0) = ''datasources-1''" by (simp add: testShards_def)
  have 2: "priorCoverageExclusions testShards 0 = []" by (simp add: priorCoverageExclusions_def)
  have 3: "map_option exclusionEntries
     (resolvedCollectCoverageFrom
        (configureShardingOrFallbackTo testShards (Some ''datasources-1'') fallbackConfig))
     = Some [''!lib/**/types.ts'',
         ''!lib/**/{__fixtures__,__mocks__,__testutil__,test}/**/*.{js,ts}'',
         ''!lib/**/*.{d,spec}.ts'']"
    by code_simp
  from 1 2 3 show ?thesis by blast
qed

lemma callsite_exact:
  "list_all (\<lambda>(key, c).
       map_option (\<lambda>g. differingFields g (initialGlobal fallbackConfig))
         (resolvedGlobal (configureShardingOrFallbackTo testShards (Some key) fallbackConfig))
       = Some (overriddenFields (threshold c)))
     testShards"
  by code_simp

lemma initialGlobal_explicit:
  "initialGlobal fallback =
     (let d = (\<lambda>f. case coverageThreshold fallback of None \<Rightarrow> None
                    | Some ct \<Rightarrow> (case global ct of None \<Rightarrow> None | Some g \<Rightarrow> f g))
      in \<lparr>branches = Some (case d branches of None \<Rightarrow> 100 | Some v \<Rightarrow> v),
          functions = Some (case d functions of None \<Rightarrow> 100 | Some v \<Rightarrow> v),
          lines = Some (case d lines of None \<Rightarrow> 100 | Some v \<Rightarrow> v),
          statements = Some (case d statements of None \<Rightarrow> 100 | Some v \<Rightarrow> v)\<rparr>)"
  by (simp add: initialGlobal_def defaultGlobalOf_def Let_def split: option.split)

lemma testShards_5:
  "testShards ! 5 = (''managers-4'', \<lparr>matchPaths = [''lib/modules/manager''], threshold = None\<rparr>)"
  by (simp add: testShards_def)

text \<open>
  Claim C6 (threshold defaults): the baseline is the global threshold of the fallback,
  each missing field being 100. Without an override the resolved threshold is the
  baseline on all four fields; with an override every overridden field has the value of
  the override and every other field the value of the baseline, so only overridden
  fields differ from it. For the fallback of the call site and each of the sixteen
  shards, the fields that differ from the baseline are exactly the overridden ones.
\<close>

theorem resolver_threshold:
  assumes "distinct (map fst shards)" "k < length shards" "shards ! k = (shardKey, cfg)"
    "shardKey \<noteq> []"
  shows "(\<exists>g. resolvedGlobal (configureShardingOrFallbackTo shards (Some shardKey) fallback)
            = Some g \<and>
          (threshold cfg = None \<longrightarrow> g = initialGlobal fallback) \<and>
          (\<forall>t. threshold cfg = Some t \<longrightarrow>
             branches g = (case branches t of None \<Rightarrow> branches (initialGlobal fallback)
                           | Some v \<Rightarrow> Some v) \<and>
             functions g = (case functions t of None \<Rightarrow> functions (initialGlobal fallback)
                            | Some v \<Rightarrow> Some v) \<and>
             lines g = (case lines t of None \<Rightarrow> lines (initialGlobal fallback)
                        | Some v \<Rightarrow> Some v) \<and>
             statements g = (case statements t of None \<Rightarrow> statements (initialGlobal fallback)
                             | Some v \<Rightarrow> Some v))) \<and>
         initialGlobal fallback =
           (let d = (\<lambda>f. case coverageThreshold fallback of None \<Rightarrow> None
                          | Some ct \<Rightarrow> (case global ct of None \<Rightarrow> None | Some g \<Rightarrow> f g))
            in \<lparr>branches = Some (case d branches of None \<Rightarrow> 100 | Some v \<Rightarrow> v),
                functions = Some (case d functions of None \<Rightarrow> 100 | Some v \<Rightarrow> v),
                lines = Some (case d lines of None \<Rightarrow> 100 | Some v \<Rightarrow> v),
                statements = Some (case d statements of None \<Rightarrow> 100 | Some v \<Rightarrow> v)\<rparr>) \<and>
         list_all (\<lambda>(key, c).
             map_option (\<lambda>g. differingFields g (initialGlobal fallbackConfig))
               (resolvedGlobal
                  (configureShardingOrFallbackTo testShards (Some key) fallbackConfig))
             = Some (overriddenFields (threshold c)))
           testShards"
proof -
  have 1: "\<exists>g. resolvedGlobal (configureShardingOrFallbackTo shards (Some shardKey) fallback)
            = Some g \<and>
          (threshold cfg = None \<longrightarrow> g = initialGlobal fallback) \<and>
          (\<forall>t. threshold cfg = Some t \<longrightarrow>
             branches g = (case branches t of None \<Rightarrow> branches (initialGlobal fallback)
                           | Some v \<Rightarrow> Some v) \<and>
             functions g = (case functions t of None \<Rightarrow> functions (initialGlobal fallback)
                            | Some v \<Rightarrow> Some v) \<and>
             lines g = (case lines t of None \<Rightarrow> lines (initialGlobal fallback)
                        | Some v \<Rightarrow> Some v) \<and>
             statements g = (case statements t of None \<Rightarrow> statements (initialGlobal fallback)
                             | Some v \<Rightarrow> Some v))"
    unfolding configure_target [OF assms] resolvedGlobal_def
    by (auto simp: spreadThreshold_def)
  from 1 initialGlobal_explicit [of fallback] callsite_exact show ?thesis
    by - (intro conjI; assumption)
qed

theorem resolver_threshold_witness:
  "distinct (map fst testShards) \<and> (0::nat) < length testShards \<and>
   testShards ! 0 = (''datasources-1'',
      \<lparr>matchPaths = [''lib/modules/datasource/[a-g]*''],
       threshold = Some \<lparr>branches = Some 96.95, functions = None, lines = None,
         statements = None\<rparr>\<rparr>) \<and>
   ''datasources-1'' \<noteq> [] \<and>
   resolvedGlobal
     (configureShardingOrFallbackTo testShards (Some ''datasources-1'') fallbackConfig)
     = Some \<lparr>branches = Some 96.95, functions = Some 100, lines = Some 100,
         statements = Some 100\<rparr> \<and>
   initialGlobal fallbackConfig
     = \<lparr>branches = Some 98, functions = Some 100, lines = Some 100, statements = Some 100\<rparr> \<and>
   (5::nat) < length testShards \<and>
   testShards ! 5
     = (''managers-4'', \<lparr>matchPaths = [''lib/modules/manager''], threshold = None\<rparr>) \<and>
   ''managers-4'' \<noteq> [] \<and>
   resolvedGlobal
     (configureShardingOrFallbackTo testShards (Some ''managers-4'') partialFallback)
     = Some \<lparr>branches = Some 90, functions = Some 100, lines = Some 100,
         statements = Some 100\<rparr>"
proof -
  have k: "(0::nat) < length testShards" "(5::nat) < length testShards"
    by (simp_all add: testShards_def)
  have n: "''datasources-1'' \<noteq> []" "''managers-4'' \<noteq> []" by simp_all
  note a = resolver_threshold [OF testShards_distinct k(1) testShards_0 n(1), of fallbackConfig]
  note b = resolver_threshold [OF testShards_distinct k(2) testShards_5 n(2), of partialFallback]
  have ia: "initialGlobal fallbackConfig
     = \<lparr>branches = Some 98, functions = Some 100, lines = Some 100, statements = Some 100\<rparr>"
    unfolding a [THEN conjunct2, THEN conjunct1] by (simp add: fallbackConfig_def)
  have ib: "initialGlobal partialFallback
     = \<lparr>branches = Some 90, functions = Some 100, lines = Some 100, statements = Some 100\<rparr>"
    unfolding b [THEN conjunct2, THEN conjunct1] by (simp add: partialFallback_def)
  obtain g where g: "resolvedGlobal
       (configureShardingOrFallbackTo testShards (Some ''datasources-1'') fallbackConfig) = Some g"
    "branches g = Some 96.95" "functions g = functions (initialGlobal fallbackConfig)"
    "lines g = lines (initialGlobal fallbackConfig)"
    "statements g = statements (initialGlobal fallbackConfig)"
    using a [THEN conjunct1] by auto
  have ga: "g = \<lparr>branches = Some 96.95, functions = Some 100, lines = Some 100,
         statements = Some 100\<rparr>"
    using g(2-5) unfolding ia by (cases g) simp
  obtain g' where g': "resolvedGlobal
       (configureShardingOrFallbackTo testShards (Some ''managers-4'') partialFallback) = Some g'"
    "g' = initialGlobal partialFallback"
    using b [THEN conjunct1] by auto
  from testShards_distinct k n testShards_0 testShards_5 g(1) [unfolded ga] ia
    g'(1) [unfolded g'(2) ib]
  show ?thesis by - (intro conjI; assumption)
qed

text \<open>
  Claim C7 (fallback identity): when \<^verbatim>\<open>TEST_SHARD\<close> is not set the fallback
  configuration is returned unchanged. The empty string is treated like an unset
  variable.
\<close>

theorem resolver_fallback_identity:
  "configureShardingOrFallbackTo shards None fallback = Inr fallback \<and>
   configureShardingOrFallbackTo shards (Some []) fallback = Inr fallback"
  by (simp add: configureShardingOrFallbackTo_def)

theorem resolver_fallback_identity_witness:
  "configureShardingOrFallbackTo testShards None fallbackConfig = Inr fallbackConfig"
  using resolver_fallback_identity [of testShards fallbackConfig] by simp

text \<open>
  A non-empty value of \<^verbatim>\<open>TEST_SHARD\<close> that is neither a key of the registry nor a
  member of \<^verbatim>\<open>Object.prototype\<close> is rejected, with a message that names the value and
  lists the keys of the registry.
\<close>

lemma unknown_shard_error:
  assumes "shardKey \<noteq> []" "shardKey \<notin> set (map fst shards)"
    "shardKey \<notin> set objectPrototypeKeys"
  shows "configureShardingOrFallbackTo shards (Some shardKey) fallback =
     Inl (Error (''Unknown value for TEST_SHARD: '' @ shardKey @
                 '' (possible values: '' @ joinWith '', '' (map fst shards) @ '')''))"
  using assms by (simp add: configureShardingOrFallbackTo_def lookupTruthy_def)

text \<open>
  Claim C8 (unknown shard): every target name that is not a key of the registry is to
  be rejected with an error. \<^verbatim>\<open>constructor\<close> is not a key of the registry, yet
  \<^verbatim>\<open>testShards['constructor']\<close> is truthy, so no error is raised: the loop finds no
  target and the result excludes all sixteen shards and includes nothing.
\<close>

theorem inherited_key_accepted:
  "''constructor'' \<notin> set (map fst testShards) \<and>
   configureShardingOrFallbackTo testShards (Some ''constructor'') fallbackConfig =
     Inr \<lparr>testMatch = Some (rev (priorTestExclusions testShards 16)),
          collectCoverageFrom = Some (rev (initialCollectCoverageFrom fallbackConfig @
             priorCoverageExclusions testShards 16)),
          coverageThreshold = Some \<lparr>global = Some (initialGlobal fallbackConfig)\<rparr>,
          coverageDirectory = Some ''./coverage/shard/constructor''\<rparr>"
proof -
  have a: "''constructor'' \<notin> set (map fst testShards)" by (simp add: testShards_def)
  have l: "length testShards = 16" by (simp add: testShards_def)
  have t: "lookupTruthy testShards ''constructor''"
    by (simp add: lookupTruthy_def objectPrototypeKeys_def)
  show ?thesis
    using a t by (simp add: configureShardingOrFallbackTo_def Let_def shardLoop_absent [OF a] l)
qed

end
